theory Spec2Isabelle
  imports Main "HOL-Library.Word"
begin

section \<open>crill::seqlock_object: data model\<close>

text \<open>
  The class template \<open>seqlock_object<T>\<close> of \<open>include/crill/seqlock_object.h\<close> holds a
  sequence counter \<open>std::atomic<std::size_t> seq = 0\<close> and a byte buffer
  \<open>data[sizeof(T)]\<close> inside \<open>atomic_storage_t\<close>. A value of the trivially copyable
  type \<open>T\<close> is represented by its object representation, a list of \<open>sizeof(T)\<close> bytes;
  \<open>std::size_t\<close> is taken as a 64-bit unsigned integer, whose addition wraps around.
\<close>

type_synonym byte = "8 word"
type_synonym size_t = "64 word"
type_synonym T = "byte list"

record seqlock_object =
  seq :: size_t
  data :: "byte list"

text \<open>
  What the template and the build fix: whether the macro
  \<open>CRILL_BYTEWISE_ATOMIC_MEMCPY_AVAILABLE\<close> is set, \<open>sizeof(T)\<close>, and the object
  representations that an object initialised from the value-initialised \<open>T()\<close> can
  have. For a \<open>T\<close> without padding that is one byte list; the padding bytes of a copy
  are indeterminate, so a padded \<open>T\<close> has several.
\<close>

record config =
  BYTEWISE_ATOMIC_MEMCPY_AVAILABLE :: bool
  sizeof_T :: nat
  T_default :: "T set"

text \<open>
  The one way these operations go wrong: control reaches the end of a function that
  is declared to return a value and has no return statement. In C++ that is undefined
  behaviour; the model stops there with this error and says nothing about what a build
  does afterwards.
\<close>

datatype error = Flows_off_end

section \<open>The byte-copy storage\<close>

text \<open>
  Modelled from the spec: \<open>crill::atomic_load_per_byte_memcpy(dest, source, count, order)\<close>
  is declared in \<open>crill/bytewise_atomic_memcpy.h\<close>, which is not among the sources. The
  specification describes it as the bulk copy of the whole byte range into the
  destination; it overwrites the first \<open>count\<close> bytes of \<open>dest\<close> with those of \<open>source\<close>.
\<close>

definition atomic_load_per_byte_memcpy :: "byte list \<Rightarrow> byte list \<Rightarrow> nat \<Rightarrow> byte list" where
  "atomic_load_per_byte_memcpy dest source count = take count source @ drop count dest"

text \<open>
  Modelled from the spec: \<open>crill::atomic_store_per_byte_memcpy(dest, source, count, order)\<close>,
  from the same absent header, is the writer-side mirror: the bulk store of the whole
  byte range.
\<close>

definition atomic_store_per_byte_memcpy :: "byte list \<Rightarrow> byte list \<Rightarrow> nat \<Rightarrow> byte list" where
  "atomic_store_per_byte_memcpy dest source count = take count source @ drop count dest"

text \<open>
  The fallback loops \<open>for (std::size_t i = 0; i < sizeof(T); ++i) dst[i] = src[i]\<close> of
  \<open>memcpy_out\<close> (from \<open>data\<close> into \<open>bytes_out\<close>) and of \<open>memcpy_in\<close> (from \<open>bytes_in_ptr\<close>
  into \<open>data\<close>), started at index \<open>i\<close>.
\<close>

function per_byte_loop :: "nat \<Rightarrow> nat \<Rightarrow> byte list \<Rightarrow> byte list \<Rightarrow> byte list" where
  "per_byte_loop n i src dst =
     (if i < n then per_byte_loop n (i + 1) src (dst[i := src ! i]) else dst)"
  by pat_completeness auto
termination
  by (relation "measure (\<lambda>(n, i, src, dst). n - i)") auto

declare per_byte_loop.simps [simp del]

text \<open>
  \<open>T atomic_storage_t::memcpy_out(T& value_out) const\<close>: the content of \<open>value_out\<close> when
  the body ends, and what the call returns. Both branches of the \<open>#if\<close> copy the bytes
  and end without a return statement, although the function is declared to return
  \<open>T\<close>: every call flows off the end, whether or not the caller uses the result.
\<close>

definition memcpy_out :: "config \<Rightarrow> byte list \<Rightarrow> T \<Rightarrow> T \<times> (error + T)" where
  "memcpy_out cfg dat value_out =
     (let value_out' =
        (if BYTEWISE_ATOMIC_MEMCPY_AVAILABLE cfg
         then atomic_load_per_byte_memcpy value_out dat (sizeof_T cfg)
         else per_byte_loop (sizeof_T cfg) 0 dat value_out)
      in (value_out', Inl Flows_off_end))"

text \<open>\<open>void atomic_storage_t::memcpy_in(T& value_in)\<close>: the new content of \<open>data\<close>.\<close>

definition memcpy_in :: "config \<Rightarrow> byte list \<Rightarrow> T \<Rightarrow> byte list" where
  "memcpy_in cfg dat value_in =
     (if BYTEWISE_ATOMIC_MEMCPY_AVAILABLE cfg
      then atomic_store_per_byte_memcpy dat value_in (sizeof_T cfg)
      else per_byte_loop (sizeof_T cfg) 0 value_in dat)"

section \<open>The operations, each run without interference\<close>

text \<open>
  \<open>void store(T t)\<close>: load the counter, store \<open>old_seq + 1\<close>, copy the bytes in, store
  \<open>old_seq + 2\<close>. The argument is the parameter object \<open>t\<close> as \<open>store\<close> receives it.
\<close>

definition store :: "config \<Rightarrow> seqlock_object \<Rightarrow> T \<Rightarrow> seqlock_object" where
  "store cfg s t =
     (let old_seq = seq s;
          s1 = s\<lparr>seq := old_seq + 1\<rparr>;
          s2 = s1\<lparr>data := memcpy_in cfg (data s1) t\<rparr>
      in s2\<lparr>seq := old_seq + 2\<rparr>)"

text \<open>
  \<open>bool try_load(T& t) const\<close>: the content of the output slot \<open>t\<close> afterwards, and the
  returned flag or the error. An odd counter returns false at once. Otherwise
  \<open>memcpy_out\<close> is called; had it returned, the counter would be read again and the
  two readings compared.
\<close>

definition try_load :: "config \<Rightarrow> seqlock_object \<Rightarrow> T \<Rightarrow> T \<times> (error + bool)" where
  "try_load cfg s t =
     (let seq1 = seq s in
      if seq1 mod 2 \<noteq> 0 then (t, Inr False)
      else
        (case memcpy_out cfg (data s) t of
           (t', Inl e) \<Rightarrow> (t', Inl e)
         | (t', Inr r) \<Rightarrow> (let seq2 = seq s in (t', Inr (seq1 = seq2)))))"

text \<open>
  \<open>T load() const\<close>: \<open>T t; while (!try_load(t)); return t;\<close>. The local \<open>t\<close> starts with
  indeterminate content, the argument \<open>t\<close> here. The loop need not end, so the result is
  an option: \<open>None\<close> when \<open>load\<close> never returns; an error of \<open>try_load\<close> ends it.
\<close>

partial_function (option) load :: "config \<Rightarrow> seqlock_object \<Rightarrow> T \<Rightarrow> (error + T) option" where
  "load cfg s t =
     (case try_load cfg s t of
        (t', Inl e) \<Rightarrow> Some (Inl e)
      | (t', Inr ok) \<Rightarrow> if \<not> ok then load cfg s t' else Some (Inr t'))"

text \<open>
  The constructors: the member initialiser sets \<open>seq = 0\<close>, the storage \<open>dat\<close> is not
  initialised, and the body calls \<open>store(T())\<close> or \<open>store(t)\<close>. \<open>store\<close> takes its
  argument by value, so what it receives is a copy: the argument \<open>t\<close> of both
  definitions is the parameter object of \<open>store\<close>. For the default constructor it is
  one of the representations \<open>T_default\<close> of \<open>T()\<close>, which is a premise wherever the
  constructor is used.
\<close>

definition seqlock_object_default :: "config \<Rightarrow> byte list \<Rightarrow> T \<Rightarrow> seqlock_object" where
  "seqlock_object_default cfg dat t = store cfg \<lparr>seq = 0, data = dat\<rparr> t"

definition seqlock_object_value :: "config \<Rightarrow> byte list \<Rightarrow> T \<Rightarrow> seqlock_object" where
  "seqlock_object_value cfg dat t = store cfg \<lparr>seq = 0, data = dat\<rparr> t"

section \<open>The operations, one shared-memory access at a time\<close>

text \<open>
  Another thread can run between any two accesses of \<open>store\<close> and \<open>try_load\<close> to the
  atomics \<open>seq\<close> and \<open>data[i]\<close>. To speak of the states in between, each operation is
  also given as a machine that performs one access per step: a load or a store of
  \<open>seq\<close>, or the copy of one byte. The exit test of the copy loop and the fences touch
  no shared memory and belong to the step that follows them. The copy is taken byte
  by byte in both builds: the fallback loop is written so, and the bulk primitives are
  per-byte atomic by their name. Every access reads or writes the one current state
  of the object; the memory orders of the source have no counterpart.

  \<open>store(t)\<close>: the program counter records the local \<open>old_seq\<close> and the loop index.
\<close>

datatype store_pc =
    ST_load_seq
  | ST_store_seq1 size_t
  | ST_memcpy_in size_t nat
  | ST_return

fun store_step :: "config \<Rightarrow> T \<Rightarrow> store_pc \<times> seqlock_object \<Rightarrow> store_pc \<times> seqlock_object" where
  "store_step cfg t (ST_load_seq, s) = (ST_store_seq1 (seq s), s)"
| "store_step cfg t (ST_store_seq1 old_seq, s) = (ST_memcpy_in old_seq 0, s\<lparr>seq := old_seq + 1\<rparr>)"
| "store_step cfg t (ST_memcpy_in old_seq i, s) =
     (if i < sizeof_T cfg
      then (ST_memcpy_in old_seq (i + 1), s\<lparr>data := (data s)[i := t ! i]\<rparr>)
      else (ST_return, s\<lparr>seq := old_seq + 2\<rparr>))"
| "store_step cfg t (ST_return, s) = (ST_return, s)"

text \<open>The first \<open>k\<close> accesses of \<open>store(t)\<close> on the object \<open>s\<close>, nothing else running.\<close>

definition store_steps :: "config \<Rightarrow> T \<Rightarrow> nat \<Rightarrow> seqlock_object \<Rightarrow> store_pc \<times> seqlock_object" where
  "store_steps cfg t k s = ((store_step cfg t) ^^ k) (ST_load_seq, s)"

text \<open>
  A store is between its two counter updates when \<open>old_seq + 1\<close> has been stored and
  \<open>old_seq + 2\<close> has not.
\<close>

fun between_updates :: "store_pc \<Rightarrow> bool" where
  "between_updates (ST_memcpy_in old_seq i) = True"
| "between_updates pc = False"

text \<open>
  \<open>try_load(t)\<close>: a step reads the object as it is at that moment and updates the
  reader's locals, the program counter (with \<open>seq1\<close> and the loop index) and the
  output slot \<open>t\<close>. When the copy loop of \<open>memcpy_out\<close> is done, the next step reaches
  the end of that function without a return statement. The second load of the counter
  is the step \<open>TL_load_seq2\<close>, where a \<open>memcpy_out\<close> that returned would continue; no
  step leads there.
\<close>

datatype try_load_pc =
    TL_load_seq1
  | TL_memcpy_out size_t nat
  | TL_load_seq2 size_t
  | TL_return bool
  | TL_undefined error

fun try_load_step :: "config \<Rightarrow> seqlock_object \<Rightarrow> try_load_pc \<times> T \<Rightarrow> try_load_pc \<times> T" where
  "try_load_step cfg s (TL_load_seq1, t) =
     (let seq1 = seq s in
      if seq1 mod 2 \<noteq> 0 then (TL_return False, t) else (TL_memcpy_out seq1 0, t))"
| "try_load_step cfg s (TL_memcpy_out seq1 i, t) =
     (if i < sizeof_T cfg
      then (TL_memcpy_out seq1 (i + 1), t[i := data s ! i])
      else (TL_undefined Flows_off_end, t))"
| "try_load_step cfg s (TL_load_seq2 seq1, t) =
     (let seq2 = seq s in (TL_return (seq1 = seq2), t))"
| "try_load_step cfg s (TL_return r, t) = (TL_return r, t)"
| "try_load_step cfg s (TL_undefined e, t) = (TL_undefined e, t)"

text \<open>
  A \<open>try_load(t)\<close> whose successive steps find the object in the states \<open>ss\<close>, which
  other threads may have changed in between in any way.
\<close>

definition try_load_steps :: "config \<Rightarrow> seqlock_object list \<Rightarrow> T \<Rightarrow> try_load_pc \<times> T" where
  "try_load_steps cfg ss t = fold (try_load_step cfg) ss (TL_load_seq1, t)"

text \<open>
  The program counters from which \<open>try_load\<close> has not returned true and cannot reach
  the second load of the counter.
\<close>

fun before_return :: "try_load_pc \<Rightarrow> bool" where
  "before_return (TL_load_seq2 seq1) = False"
| "before_return (TL_return r) = (\<not> r)"
| "before_return pc = True"

text \<open>The counter value \<open>seq1\<close> that a \<open>try_load\<close> past its first access holds is even.\<close>

fun seq1_even :: "try_load_pc \<Rightarrow> bool" where
  "seq1_even (TL_memcpy_out seq1 i) = even seq1"
| "seq1_even (TL_load_seq2 seq1) = even seq1"
| "seq1_even pc = True"

text \<open>
  What the copy loop of \<open>try_load\<close> gathers when its \<open>k\<close>-th byte load finds the object
  in the state \<open>bs ! k\<close>.
\<close>

definition copied_bytes :: "seqlock_object list \<Rightarrow> T" where
  "copied_bytes bs = map (\<lambda>k. data (bs ! k) ! k) [0..<length bs]"

section \<open>States reached by completed operations\<close>

text \<open>
  An object is built by one of the two constructors and then changed by \<open>store\<close> only:
  \<open>load\<close> and \<open>try_load\<close> are \<open>const\<close> and perform atomic loads only, so they leave
  the object as it is.
\<close>

inductive reachable :: "config \<Rightarrow> seqlock_object \<Rightarrow> bool" for cfg :: config where
  default_ctor:
    "length dat = sizeof_T cfg \<Longrightarrow> t \<in> T_default cfg \<Longrightarrow> length t = sizeof_T cfg \<Longrightarrow>
     reachable cfg (seqlock_object_default cfg dat t)"
| value_ctor:
    "length dat = sizeof_T cfg \<Longrightarrow> length t = sizeof_T cfg \<Longrightarrow>
     reachable cfg (seqlock_object_value cfg dat t)"
| after_store:
    "reachable cfg s \<Longrightarrow> length t = sizeof_T cfg \<Longrightarrow> reachable cfg (store cfg s t)"

section \<open>A concrete instance\<close>

text \<open>
  A two-byte \<open>T\<close> without padding built with the fallback copy, whose \<open>T()\<close> is
  \<open>{0, 0}\<close>, and an object of it default-constructed over storage that held the bytes
  \<open>7, 9\<close>.
\<close>

definition cfg2 :: config where
  "cfg2 = \<lparr>BYTEWISE_ATOMIC_MEMCPY_AVAILABLE = False, sizeof_T = 2, T_default = {[0, 0]}\<rparr>"

definition obj2 :: seqlock_object where
  "obj2 = seqlock_object_default cfg2 [7, 9] [0, 0]"

section \<open>Byte copies\<close>

lemma per_byte_loop_length: "length (per_byte_loop n i src dst) = length dst"
  by (induction n i src dst rule: per_byte_loop.induct)
     (subst per_byte_loop.simps, simp)

lemma per_byte_loop_nth:
  "k < length dst \<Longrightarrow>
   per_byte_loop n i src dst ! k = (if i \<le> k \<and> k < n then src ! k else dst ! k)"
proof (induction n i src dst rule: per_byte_loop.induct)
  case (1 n i src dst)
  show ?case
  proof (cases "i < n")
    case True
    have "per_byte_loop n i src dst = per_byte_loop n (i + 1) src (dst[i := src ! i])"
      using True by (subst per_byte_loop.simps) simp
    moreover have "per_byte_loop n (i + 1) src (dst[i := src ! i]) ! k =
        (if i + 1 \<le> k \<and> k < n then src ! k else dst[i := src ! i] ! k)"
      using "1.IH" [OF True] "1.prems" by simp
    moreover have "i + 1 \<le> k \<longleftrightarrow> i \<le> k \<and> k \<noteq> i"
      by arith
    ultimately show ?thesis
      using "1.prems" True by (cases "k = i") (simp_all add: nth_list_update)
  next
    case False
    have "per_byte_loop n i src dst = dst"
      using False by (subst per_byte_loop.simps) simp
    moreover have "\<not> (i \<le> k \<and> k < n)"
      using False by arith
    ultimately show ?thesis
      by auto
  qed
qed

lemma per_byte_loop_all:
  assumes "length src = n" and "length dst = n"
  shows "per_byte_loop n 0 src dst = src"
  by (rule nth_equalityI) (simp_all add: per_byte_loop_length per_byte_loop_nth assms)

lemma memcpy_out_all:
  "length dat = sizeof_T cfg \<Longrightarrow> length value_out = sizeof_T cfg \<Longrightarrow>
   memcpy_out cfg dat value_out = (dat, Inl Flows_off_end)"
  by (simp add: memcpy_out_def atomic_load_per_byte_memcpy_def per_byte_loop_all)

lemma memcpy_in_all:
  "length dat = sizeof_T cfg \<Longrightarrow> length value_in = sizeof_T cfg \<Longrightarrow>
   memcpy_in cfg dat value_in = value_in"
  by (simp add: memcpy_in_def atomic_store_per_byte_memcpy_def per_byte_loop_all)

section \<open>The operations without interference\<close>

lemma store_eq:
  "length (data s) = sizeof_T cfg \<Longrightarrow> length t = sizeof_T cfg \<Longrightarrow>
   store cfg s t = s\<lparr>seq := seq s + 2, data := t\<rparr>"
  by (simp add: store_def Let_def memcpy_in_all)

lemma store_seq: "seq (store cfg s t) = seq s + 2"
  by (simp add: store_def Let_def)

lemma reachable_even: "reachable cfg s \<Longrightarrow> even (seq s)"
  by (induction rule: reachable.induct)
     (simp_all add: seqlock_object_default_def seqlock_object_value_def store_seq)

lemma reachable_length: "reachable cfg s \<Longrightarrow> length (data s) = sizeof_T cfg"
  by (induction rule: reachable.induct)
     (simp_all add: seqlock_object_default_def seqlock_object_value_def store_eq)

section \<open>The store machine\<close>

lemma store_steps_Suc: "store_steps cfg t (Suc k) s = store_step cfg t (store_steps cfg t k s)"
  by (simp add: store_steps_def)

lemma store_steps_0: "store_steps cfg t 0 s = (ST_load_seq, s)"
  by (simp add: store_steps_def)

lemma store_steps_1: "store_steps cfg t (Suc 0) s = (ST_store_seq1 (seq s), s)"
  by (simp add: store_steps_Suc store_steps_0)

lemma store_steps_2:
  "store_steps cfg t (Suc (Suc 0)) s = (ST_memcpy_in (seq s) 0, s\<lparr>seq := seq s + 1\<rparr>)"
  by (simp add: store_steps_Suc store_steps_0)

lemma update_prefix:
  assumes "i < length t" and "i < length d"
  shows "(take i t @ drop i d)[i := t ! i] = take (Suc i) t @ drop (Suc i) d"
proof -
  have "drop i d = d ! i # drop (Suc i) d"
    using assms(2) by (simp add: Cons_nth_drop_Suc)
  then have "(take i t @ drop i d)[i := t ! i] = take i t @ t ! i # drop (Suc i) d"
    using assms(1) by (simp add: list_update_append)
  also have "\<dots> = take (Suc i) t @ drop (Suc i) d"
    using assms(1) by (simp add: take_Suc_conv_app_nth)
  finally show ?thesis .
qed

lemma store_steps_copy:
  assumes "length (data s) = sizeof_T cfg" and "length t = sizeof_T cfg"
  shows "i \<le> sizeof_T cfg \<Longrightarrow>
    store_steps cfg t (Suc (Suc i)) s =
      (ST_memcpy_in (seq s) i, s\<lparr>seq := seq s + 1, data := take i t @ drop i (data s)\<rparr>)"
proof (induction i)
  case 0
  show ?case by (simp add: store_steps_2)
next
  case (Suc i)
  then have lt: "i < sizeof_T cfg" by simp
  have "store_steps cfg t (Suc (Suc (Suc i))) s =
      store_step cfg t (ST_memcpy_in (seq s) i, s\<lparr>seq := seq s + 1, data := take i t @ drop i (data s)\<rparr>)"
    using Suc.IH lt by (simp add: store_steps_Suc [of cfg t "Suc (Suc i)"])
  also have "\<dots> = (ST_memcpy_in (seq s) (Suc i),
      s\<lparr>seq := seq s + 1, data := (take i t @ drop i (data s))[i := t ! i]\<rparr>)"
    using lt by simp
  finally show ?case
    using lt assms by (simp add: update_prefix)
qed

lemma store_steps_return:
  assumes "length (data s) = sizeof_T cfg" and "length t = sizeof_T cfg"
  shows "store_steps cfg t (sizeof_T cfg + 3) s = (ST_return, store cfg s t)"
proof -
  have "store_steps cfg t (sizeof_T cfg + 3) s =
      store_step cfg t (store_steps cfg t (Suc (Suc (sizeof_T cfg))) s)"
    by (simp add: store_steps_Suc [symmetric] numeral_3_eq_3)
  also have "\<dots> = (ST_return, s\<lparr>seq := seq s + 2, data := t\<rparr>)"
    using assms by (simp add: store_steps_copy)
  finally show ?thesis
    using assms by (simp add: store_eq)
qed

lemma store_steps_after_return:
  assumes "length (data s) = sizeof_T cfg" and "length t = sizeof_T cfg"
  shows "store_steps cfg t (sizeof_T cfg + 3 + k) s = (ST_return, store cfg s t)"
proof (induction k)
  case 0
  show ?case using assms by (simp add: store_steps_return)
next
  case (Suc k)
  have "store_steps cfg t (sizeof_T cfg + 3 + Suc k) s =
     store_step cfg t (store_steps cfg t (sizeof_T cfg + 3 + k) s)"
    by (simp add: store_steps_Suc [symmetric])
  then show ?case using Suc by simp
qed

section \<open>The concrete instance\<close>

lemma reachable_obj2: "reachable cfg2 obj2"
  unfolding obj2_def by (rule reachable.default_ctor) (simp_all add: cfg2_def)

lemma obj2_eq: "obj2 = \<lparr>seq = 2, data = [0, 0]\<rparr>"
  by (simp add: obj2_def seqlock_object_default_def store_eq cfg2_def)

lemma obj2_len: "length (data obj2) = sizeof_T cfg2"
  by (simp add: obj2_eq cfg2_def)

lemma len2: "length [a, b :: byte] = sizeof_T cfg2"
  by (simp add: cfg2_def)

lemma obj2_mid_store:
  "store_steps cfg2 [1, 2] 4 obj2 = (ST_memcpy_in 2 2, \<lparr>seq = 3, data = [1, 2]\<rparr>)"
proof -
  have "store_steps cfg2 [1, 2] (Suc (Suc 2)) obj2 =
      (ST_memcpy_in (seq obj2) 2,
       obj2\<lparr>seq := seq obj2 + 1, data := take 2 [1, 2] @ drop 2 (data obj2)\<rparr>)"
    by (rule store_steps_copy) (simp_all add: obj2_len len2 cfg2_def)
  moreover have "Suc (Suc 2) = 4"
    by simp
  ultimately show ?thesis
    by (simp add: obj2_eq)
qed

section \<open>The store protocol\<close>

lemma store_seq_unat: "unat (seq (store cfg s t)) = (unat (seq s) + 2) mod 2 ^ 64"
  by (simp add: store_seq unat_word_ariths)

lemma store_seq_less:
  assumes "unat (seq s) + 2 < 2 ^ 64"
  shows "seq s < seq (store cfg s t)"
proof -
  have "unat (seq (store cfg s t)) = unat (seq s) + 2"
    using assms by (simp add: store_seq_unat)
  then show ?thesis
    by (simp add: word_less_nat_alt)
qed

lemma store_seq_wraps: "seq s = - 2 \<Longrightarrow> seq (store cfg s t) = 0"
  by (simp add: store_seq)

lemma step_index_cases:
  "k = 0 \<or> k = Suc 0 \<or> (\<exists>i\<le>n. k = Suc (Suc i)) \<or> (\<exists>j. k = n + 3 + j)"
  by presburger

lemma store_steps_seq:
  assumes "length (data s) = sizeof_T cfg" and "length t = sizeof_T cfg"
  shows "seq (snd (store_steps cfg t k s)) =
      (if k < 2 then seq s else if k \<le> sizeof_T cfg + 2 then seq s + 1 else seq s + 2)"
    and "between_updates (fst (store_steps cfg t k s)) \<longleftrightarrow> 2 \<le> k \<and> k \<le> sizeof_T cfg + 2"
proof -
  consider "k = 0" | "k = Suc 0" | i where "i \<le> sizeof_T cfg" "k = Suc (Suc i)"
    | j where "k = sizeof_T cfg + 3 + j"
    using step_index_cases [of k "sizeof_T cfg"] by blast
  then have "seq (snd (store_steps cfg t k s)) =
      (if k < 2 then seq s else if k \<le> sizeof_T cfg + 2 then seq s + 1 else seq s + 2)
    \<and> (between_updates (fst (store_steps cfg t k s)) \<longleftrightarrow> 2 \<le> k \<and> k \<le> sizeof_T cfg + 2)"
  proof cases
    case 1
    then show ?thesis by (simp add: store_steps_0)
  next
    case 2
    then show ?thesis by (simp add: store_steps_1)
  next
    case 3
    then show ?thesis using assms by (simp add: store_steps_copy)
  next
    case 4
    then show ?thesis using assms by (simp add: store_steps_after_return store_seq)
  qed
  then show "seq (snd (store_steps cfg t k s)) =
      (if k < 2 then seq s else if k \<le> sizeof_T cfg + 2 then seq s + 1 else seq s + 2)"
    and "between_updates (fst (store_steps cfg t k s)) \<longleftrightarrow> 2 \<le> k \<and> k \<le> sizeof_T cfg + 2"
    by simp_all
qed


text \<open>
  C3: \<open>store\<close> performs, in this order, the load of the counter, the store of
  \<open>old_seq + 1\<close>, the copy of the \<open>sizeof(T)\<close> bytes of the value into the storage and
  the store of \<open>old_seq + 2\<close>; the accesses taken one by one end in the state that
  \<open>store\<close> returns. A completed store therefore adds exactly 2 to the counter, in
  \<open>size_t\<close> arithmetic: the counter grows, except when the addition wraps around.
\<close>

theorem store_protocol:
  assumes "length (data s) = sizeof_T cfg" and "length t = sizeof_T cfg"
  shows "store_steps cfg t 0 s = (ST_load_seq, s)
    \<and> store_steps cfg t 1 s = (ST_store_seq1 (seq s), s)
    \<and> (\<forall>i \<le> sizeof_T cfg. store_steps cfg t (2 + i) s =
          (ST_memcpy_in (seq s) i, s\<lparr>seq := seq s + 1, data := take i t @ drop i (data s)\<rparr>))
    \<and> store_steps cfg t (sizeof_T cfg + 3) s = (ST_return, store cfg s t)
    \<and> store cfg s t = s\<lparr>seq := seq s + 2, data := t\<rparr>
    \<and> seq (store cfg s t) = seq s + 2
    \<and> unat (seq (store cfg s t)) = (unat (seq s) + 2) mod 2 ^ 64
    \<and> (unat (seq s) + 2 < 2 ^ 64 \<longrightarrow> seq s < seq (store cfg s t))"
proof -
  have c1: "store_steps cfg t 0 s = (ST_load_seq, s)"
    by (rule store_steps_0)
  have c2: "store_steps cfg t 1 s = (ST_store_seq1 (seq s), s)"
    by (simp add: store_steps_1)
  have c3: "\<forall>i \<le> sizeof_T cfg. store_steps cfg t (2 + i) s =
          (ST_memcpy_in (seq s) i, s\<lparr>seq := seq s + 1, data := take i t @ drop i (data s)\<rparr>)"
    using assms by (simp add: store_steps_copy)
  have c4: "store_steps cfg t (sizeof_T cfg + 3) s = (ST_return, store cfg s t)"
    using assms by (rule store_steps_return)
  have c5: "store cfg s t = s\<lparr>seq := seq s + 2, data := t\<rparr>"
    using assms by (rule store_eq)
  have c6: "seq (store cfg s t) = seq s + 2"
    by (rule store_seq)
  have c7: "unat (seq (store cfg s t)) = (unat (seq s) + 2) mod 2 ^ 64"
    by (rule store_seq_unat)
  have c8: "unat (seq s) + 2 < 2 ^ 64 \<longrightarrow> seq s < seq (store cfg s t)"
    using store_seq_less by blast
  from c1 c2 c3 c4 c5 c6 c7 c8 show ?thesis
    by blast
qed

theorem store_protocol_witness:
  "length (data obj2) = sizeof_T cfg2 \<and> length [1, 2 :: byte] = sizeof_T cfg2
   \<and> (1 :: nat) \<le> sizeof_T cfg2
   \<and> store_steps cfg2 [1, 2] (2 + 1) obj2 = (ST_memcpy_in 2 1, \<lparr>seq = 3, data = [1, 0]\<rparr>)
   \<and> store_steps cfg2 [1, 2] (sizeof_T cfg2 + 3) obj2 = (ST_return, \<lparr>seq = 4, data = [1, 2]\<rparr>)
   \<and> unat (seq obj2) + 2 < 2 ^ 64
   \<and> seq obj2 < seq (store cfg2 obj2 [1, 2])"
proof -
  note th = store_protocol [OF obj2_len len2, of 1 2]
  have le: "(1 :: nat) \<le> sizeof_T cfg2"
    by (simp add: cfg2_def)
  have "\<forall>i \<le> sizeof_T cfg2. store_steps cfg2 [1, 2] (2 + i) obj2 =
      (ST_memcpy_in (seq obj2) i,
       obj2\<lparr>seq := seq obj2 + 1, data := take i [1, 2] @ drop i (data obj2)\<rparr>)"
    using th by blast
  with le have "store_steps cfg2 [1, 2] (2 + 1) obj2 =
      (ST_memcpy_in (seq obj2) 1,
       obj2\<lparr>seq := seq obj2 + 1, data := take 1 [1, 2] @ drop 1 (data obj2)\<rparr>)"
    by blast
  then have w1: "store_steps cfg2 [1, 2] (2 + 1) obj2 =
      (ST_memcpy_in 2 1, \<lparr>seq = 3, data = [1, 0]\<rparr>)"
    by (simp add: obj2_eq)
  have "store_steps cfg2 [1, 2] (sizeof_T cfg2 + 3) obj2 =
      (ST_return, obj2\<lparr>seq := seq obj2 + 2, data := [1, 2]\<rparr>)"
    using th by simp
  then have w2: "store_steps cfg2 [1, 2] (sizeof_T cfg2 + 3) obj2 =
      (ST_return, \<lparr>seq = 4, data = [1, 2]\<rparr>)"
    by (simp add: obj2_eq)
  have lt: "unat (seq obj2) + 2 < 2 ^ 64"
    by (simp add: obj2_eq)
  have w3: "seq obj2 < seq (store cfg2 obj2 [1, 2])"
    using th lt by blast
  from obj2_len len2 le w1 w2 lt w3 show ?thesis
    by blast
qed


section \<open>Try-load and load without interference\<close>

lemma try_load_odd: "odd (seq s) \<Longrightarrow> try_load cfg s t = (t, Inr False)"
  by (simp add: try_load_def Let_def odd_iff_mod_2_eq_one)

lemma try_load_even:
  "even (seq s) \<Longrightarrow>
   try_load cfg s t = (fst (memcpy_out cfg (data s) t), Inl Flows_off_end)"
  by (simp add: try_load_def memcpy_out_def Let_def even_iff_mod_2_eq_zero)

lemma try_load_quiescent:
  "even (seq s) \<Longrightarrow> length (data s) = sizeof_T cfg \<Longrightarrow> length t = sizeof_T cfg \<Longrightarrow>
   try_load cfg s t = (data s, Inl Flows_off_end)"
  by (simp add: try_load_even memcpy_out_all)

lemma try_load_never_true: "snd (try_load cfg s t) \<noteq> Inr True"
  by (cases "even (seq s)") (simp_all add: try_load_even try_load_odd)

lemma load_even: "even (seq s) \<Longrightarrow> load cfg s t = Some (Inl Flows_off_end)"
  by (subst load.simps) (simp add: try_load_even)

lemma load_Some_error:
  assumes "load cfg s t = Some r"
  shows "even (seq s) \<and> r = Inl Flows_off_end"
proof (rule load.raw_induct [where P = "\<lambda>cfg s t r. even (seq s) \<and> r = Inl Flows_off_end", OF _ assms])
  fix f :: "config \<Rightarrow> seqlock_object \<Rightarrow> T \<Rightarrow> (error + T) option" and cfg s t r
  assume IH: "\<And>cfg s t r. f cfg s t = Some r \<Longrightarrow> even (seq s) \<and> r = Inl Flows_off_end"
    and body: "(case try_load cfg s t of
        (t', Inl e) \<Rightarrow> Some (Inl e)
      | (t', Inr ok) \<Rightarrow> if \<not> ok then f cfg s t' else Some (Inr t')) = Some r"
  show "even (seq s) \<and> r = Inl Flows_off_end"
  proof (cases "even (seq s)")
    case True
    with body show ?thesis
      by (simp add: try_load_even)
  next
    case False
    with body have "f cfg s t = Some r"
      by (simp add: try_load_odd)
    then show ?thesis
      by (rule IH)
  qed
qed

lemma load_spins_while_odd: "odd (seq s) \<Longrightarrow> load cfg s t = None"
  using load_Some_error [of cfg s t] by (cases "load cfg s t") auto

lemma load_never_returns_value: "load cfg s t \<noteq> Some (Inr v)"
  using load_Some_error [of cfg s t "Inr v"] by auto

section \<open>The try-load machine against any environment\<close>

lemma fold_return: "fold (try_load_step cfg) ss (TL_return r, t) = (TL_return r, t)"
  by (induction ss) simp_all

lemma fold_undefined: "fold (try_load_step cfg) ss (TL_undefined e, t) = (TL_undefined e, t)"
  by (induction ss) simp_all

lemma try_load_step_odd:
  "odd (seq s1) \<Longrightarrow> try_load_step cfg s1 (TL_load_seq1, t) = (TL_return False, t)"
  by (simp add: Let_def odd_iff_mod_2_eq_one)

lemma try_load_steps_odd:
  "odd (seq s1) \<Longrightarrow> try_load_steps cfg (s1 # ss) t = (TL_return False, t)"
  by (simp add: try_load_steps_def Let_def odd_iff_mod_2_eq_one fold_return)

lemma copy_phase:
  "i + length bs \<le> sizeof_T cfg \<Longrightarrow>
   \<exists>t'. fold (try_load_step cfg) bs (TL_memcpy_out q i, t) = (TL_memcpy_out q (i + length bs), t')
      \<and> length t' = length t
      \<and> (\<forall>k < length t. t' ! k = (if i \<le> k \<and> k < i + length bs then data (bs ! (k - i)) ! k else t ! k))"
proof (induction bs arbitrary: i t)
  case Nil
  show ?case by auto
next
  case (Cons b bs)
  have lt: "i < sizeof_T cfg" and le: "Suc i + length bs \<le> sizeof_T cfg"
    using Cons.prems by simp_all
  obtain t' where f: "fold (try_load_step cfg) bs (TL_memcpy_out q (Suc i), t[i := data b ! i])
        = (TL_memcpy_out q (Suc i + length bs), t')"
    and l: "length t' = length (t[i := data b ! i])"
    and n: "\<forall>k < length (t[i := data b ! i]). t' ! k =
        (if Suc i \<le> k \<and> k < Suc i + length bs then data (bs ! (k - Suc i)) ! k
         else t[i := data b ! i] ! k)"
    using Cons.IH [OF le] by blast
  have "fold (try_load_step cfg) (b # bs) (TL_memcpy_out q i, t)
        = (TL_memcpy_out q (i + length (b # bs)), t')"
    using lt f by simp
  moreover have "length t' = length t"
    using l by simp
  moreover have "t' ! k = (if i \<le> k \<and> k < i + length (b # bs)
        then data ((b # bs) ! (k - i)) ! k else t ! k)" if "k < length t" for k
  proof (cases "k = i")
    case True
    then show ?thesis using n that by simp
  next
    case False
    show ?thesis
    proof (cases "i \<le> k")
      case True
      with False have "Suc i \<le> k" by simp
      then obtain j where "k - i = Suc j" and "k - Suc i = j"
        by (metis Suc_diff_Suc Suc_le_lessD diff_Suc_eq_diff_pred diff_Suc_1)
      then show ?thesis using n that False True by auto
    next
      case False
      then show ?thesis using n that by simp
    qed
  qed
  ultimately show ?case by blast
qed

lemma try_load_steps_copied:
  assumes "even (seq s1)" and "length bs = sizeof_T cfg" and "length t = sizeof_T cfg"
  shows "try_load_steps cfg (s1 # bs) t = (TL_memcpy_out (seq s1) (sizeof_T cfg), copied_bytes bs)"
proof -
  obtain t' where f: "fold (try_load_step cfg) bs (TL_memcpy_out (seq s1) 0, t)
        = (TL_memcpy_out (seq s1) (0 + length bs), t')"
    and l: "length t' = length t"
    and n: "\<forall>k < length t. t' ! k =
        (if 0 \<le> k \<and> k < 0 + length bs then data (bs ! (k - 0)) ! k else t ! k)"
    using copy_phase [of 0 bs cfg "seq s1" t] assms(2) by auto
  have "t' = copied_bytes bs"
    by (rule nth_equalityI) (simp_all add: copied_bytes_def l n assms)
  then show ?thesis
    using assms f by (simp add: try_load_steps_def Let_def even_iff_mod_2_eq_zero)
qed

lemma try_load_steps_append:
  "try_load_steps cfg (ss @ ss') t = fold (try_load_step cfg) ss' (try_load_steps cfg ss t)"
  by (simp add: try_load_steps_def)

lemma try_load_steps_even:
  assumes "even (seq s1)" and "length bs = sizeof_T cfg" and "length t = sizeof_T cfg"
  shows "try_load_steps cfg (s1 # bs @ s2 # ss) t = (TL_undefined Flows_off_end, copied_bytes bs)"
proof -
  have "try_load_steps cfg ((s1 # bs) @ s2 # ss) t =
      fold (try_load_step cfg) (s2 # ss) (TL_memcpy_out (seq s1) (sizeof_T cfg), copied_bytes bs)"
    using assms by (simp only: try_load_steps_append try_load_steps_copied)
  then show ?thesis
    by (simp add: fold_undefined)
qed

lemma copied_bytes_replicate:
  "length (data s) = n \<Longrightarrow> copied_bytes (replicate n s) = data s"
  by (rule nth_equalityI) (simp_all add: copied_bytes_def)

text \<open>Run alone, the steps of \<open>try_load\<close> give what \<open>try_load\<close> gives.\<close>

lemma try_load_steps_alone:
  assumes "length (data s) = sizeof_T cfg" and "length t = sizeof_T cfg"
  shows "try_load_steps cfg (replicate (sizeof_T cfg + 2) s) t =
     (case try_load cfg s t of
        (t', Inl e) \<Rightarrow> (TL_undefined e, t')
      | (t', Inr r) \<Rightarrow> (TL_return r, t'))"
proof (cases "even (seq s)")
  case True
  have "replicate (sizeof_T cfg + 2) s = s # replicate (sizeof_T cfg) s @ s # []"
    by (simp add: replicate_append_same)
  then show ?thesis
    using True assms
    by (simp only: try_load_steps_even [OF True] length_replicate
        try_load_quiescent copied_bytes_replicate) simp
next
  case False
  then show ?thesis
    by (simp add: try_load_steps_odd try_load_odd)
qed

lemma try_load_step_before_return:
  "before_return (fst r) \<Longrightarrow> before_return (fst (try_load_step cfg s r))"
  by (cases r, cases "fst r") (auto simp: Let_def)

lemma fold_before_return:
  "before_return (fst r) \<Longrightarrow> before_return (fst (fold (try_load_step cfg) ss r))"
  by (induction ss arbitrary: r) (simp_all add: try_load_step_before_return)

text \<open>No sequence of steps, under any interference, lets \<open>try_load\<close> return true.\<close>

lemma try_load_steps_never_true: "fst (try_load_steps cfg ss t) \<noteq> TL_return True"
proof -
  have "before_return (fst (try_load_steps cfg ss t))"
    unfolding try_load_steps_def by (rule fold_before_return) simp
  then show ?thesis
    by (cases "fst (try_load_steps cfg ss t)") auto
qed

lemma try_load_step_seq1_even:
  "seq1_even (fst r) \<Longrightarrow> seq1_even (fst (try_load_step cfg s r))"
  by (cases r, cases "fst r") (auto simp: Let_def even_iff_mod_2_eq_zero)

lemma fold_seq1_even:
  "seq1_even (fst r) \<Longrightarrow> seq1_even (fst (fold (try_load_step cfg) ss r))"
  by (induction ss arbitrary: r) (simp_all add: try_load_step_seq1_even)

lemma try_load_steps_seq1_even:
  assumes "try_load_steps cfg ss t = (TL_memcpy_out q i, t')"
  shows "even q"
proof -
  have "seq1_even (fst (try_load_steps cfg ss t))"
    unfolding try_load_steps_def by (rule fold_seq1_even) simp
  then show ?thesis
    by (simp add: assms)
qed

section \<open>More of the concrete instance\<close>

lemma obj2_stored: "store cfg2 obj2 [a, b] = \<lparr>seq = 4, data = [a, b]\<rparr>"
proof -
  have "store cfg2 obj2 [a, b] = obj2\<lparr>seq := seq obj2 + 2, data := [a, b]\<rparr>"
    by (rule store_eq) (simp_all add: obj2_len cfg2_def)
  then show ?thesis
    by (simp add: obj2_eq)
qed

lemma value2: "seqlock_object_value cfg2 [c, d] [a, b] = \<lparr>seq = 2, data = [a, b]\<rparr>"
  by (simp add: seqlock_object_value_def store_eq cfg2_def)

lemma default2: "seqlock_object_default cfg2 [c, d] [a, b] = \<lparr>seq = 2, data = [a, b]\<rparr>"
  by (simp add: seqlock_object_default_def store_eq cfg2_def)

lemma load2: "even q \<Longrightarrow> load cfg2 \<lparr>seq = q, data = d\<rparr> t = Some (Inl Flows_off_end)"
  by (rule load_even) simp

lemma try_load2:
  "even q \<Longrightarrow> try_load cfg2 \<lparr>seq = q, data = [a, b]\<rparr> [c, d] = ([a, b], Inl Flows_off_end)"
proof -
  assume "even q"
  then have "try_load cfg2 \<lparr>seq = q, data = [a, b]\<rparr> [c, d]
      = (data \<lparr>seq = q, data = [a, b]\<rparr>, Inl Flows_off_end)"
    by (intro try_load_quiescent) (simp_all add: cfg2_def)
  then show ?thesis by simp
qed

lemma try_load_steps2:
  assumes "even q"
  shows "try_load_steps cfg2
      [\<lparr>seq = q, data = d0\<rparr>, \<lparr>seq = q1, data = [a, b]\<rparr>, \<lparr>seq = q2, data = [c, d]\<rparr>, s3] [e, f]
    = (TL_undefined Flows_off_end, [a, d])"
proof -
  have "try_load_steps cfg2
      (\<lparr>seq = q, data = d0\<rparr> # [\<lparr>seq = q1, data = [a, b]\<rparr>, \<lparr>seq = q2, data = [c, d]\<rparr>] @ s3 # []) [e, f]
    = (TL_undefined Flows_off_end,
       copied_bytes [\<lparr>seq = q1, data = [a, b]\<rparr>, \<lparr>seq = q2, data = [c, d]\<rparr>])"
    by (rule try_load_steps_even) (simp_all add: assms cfg2_def)
  then show ?thesis
    by (simp add: copied_bytes_def)
qed


section \<open>Parity of the counter\<close>

lemma store_steps_parity:
  assumes "even (seq s)" and "length (data s) = sizeof_T cfg" and "length t = sizeof_T cfg"
  shows "odd (seq (snd (store_steps cfg t k s))) \<longleftrightarrow> between_updates (fst (store_steps cfg t k s))"
  using assms by (simp add: store_steps_seq)


text \<open>
  C4: the counter is even exactly when no write is in progress. In every state reached
  by the constructors and completed stores (\<open>load\<close> and \<open>try_load\<close> change nothing) the
  counter is even. The accesses of a \<open>store\<close> on such a state end in the state that
  \<open>store\<close> returns, whose counter is even again, and on the way the counter is odd
  exactly between the two counter updates, that is after access 2 and before the last
  access \<open>sizeof(T) + 3\<close>. A \<open>try_load\<close> that reads an odd counter returns false with
  its first access, run alone or among other threads, and one that is past its first
  access holds an even \<open>seq1\<close> whatever the other threads do; so a \<open>try_load\<close> that
  returns true has read an even counter.
\<close>

theorem seq_even_iff_no_write:
  assumes "reachable cfg s" and "length v = sizeof_T cfg"
  shows "even (seq s)
    \<and> store_steps cfg v (sizeof_T cfg + 3) s = (ST_return, store cfg s v)
    \<and> (odd (seq (snd (store_steps cfg v k s))) \<longleftrightarrow> between_updates (fst (store_steps cfg v k s)))
    \<and> (between_updates (fst (store_steps cfg v k s)) \<longleftrightarrow> 2 \<le> k \<and> k \<le> sizeof_T cfg + 2)
    \<and> even (seq (store cfg s v))
    \<and> (odd (seq s') \<longrightarrow>
          try_load cfg s' t = (t, Inr False)
        \<and> try_load_steps cfg (s' # ss) t = (TL_return False, t))
    \<and> (try_load_steps cfg ss' t = (TL_memcpy_out q i, t') \<longrightarrow> even q)"
proof -
  have ev: "even (seq s)"
    using assms(1) by (rule reachable_even)
  have len: "length (data s) = sizeof_T cfg"
    using assms(1) by (rule reachable_length)
  have c2: "store_steps cfg v (sizeof_T cfg + 3) s = (ST_return, store cfg s v)"
    using len assms(2) by (rule store_steps_return)
  have c3: "odd (seq (snd (store_steps cfg v k s))) \<longleftrightarrow> between_updates (fst (store_steps cfg v k s))"
    using ev len assms(2) by (rule store_steps_parity)
  have c4: "between_updates (fst (store_steps cfg v k s)) \<longleftrightarrow> 2 \<le> k \<and> k \<le> sizeof_T cfg + 2"
    using len assms(2) by (rule store_steps_seq(2))
  have c5: "even (seq (store cfg s v))"
    using ev by (simp add: store_seq)
  have c6: "odd (seq s') \<longrightarrow>
          try_load cfg s' t = (t, Inr False)
        \<and> try_load_steps cfg (s' # ss) t = (TL_return False, t)"
    using try_load_odd try_load_steps_odd by blast
  have c7: "try_load_steps cfg ss' t = (TL_memcpy_out q i, t') \<longrightarrow> even q"
    using try_load_steps_seq1_even by blast
  from ev c2 c3 c4 c5 c6 c7 show ?thesis
    by blast
qed

theorem seq_even_iff_no_write_witness:
  "reachable cfg2 obj2 \<and> length [1, 2 :: byte] = sizeof_T cfg2
   \<and> even (seq obj2)
   \<and> store_steps cfg2 [1, 2] (sizeof_T cfg2 + 3) obj2 = (ST_return, store cfg2 obj2 [1, 2])
   \<and> odd (seq (snd (store_steps cfg2 [1, 2] 4 obj2)))
   \<and> between_updates (fst (store_steps cfg2 [1, 2] 4 obj2))
   \<and> (2 :: nat) \<le> 4 \<and> 4 \<le> sizeof_T cfg2 + 2
   \<and> even (seq (store cfg2 obj2 [1, 2]))
   \<and> try_load cfg2 (snd (store_steps cfg2 [1, 2] 4 obj2)) [5, 5] = ([5, 5], Inr False)
   \<and> try_load_steps cfg2 [snd (store_steps cfg2 [1, 2] 4 obj2), obj2] [5, 5]
        = (TL_return False, [5, 5])
   \<and> try_load_steps cfg2 [obj2, obj2] [5, 5] = (TL_memcpy_out 2 1, [0, 5])
   \<and> even (2 :: size_t)"
proof -
  note th = seq_even_iff_no_write [OF reachable_obj2 len2, of 1 2 4
      "snd (store_steps cfg2 [1, 2] 4 obj2)" "[5, 5]" "[obj2]" "[obj2, obj2]" 2 1 "[0, 5]"]
  have p: "try_load_steps cfg2 [obj2, obj2] [5, 5] = (TL_memcpy_out 2 1, [0, 5])"
    by (simp add: try_load_steps_def obj2_eq cfg2_def)
  from th p have q: "even (2 :: size_t)"
    by blast
  have b: "between_updates (fst (store_steps cfg2 [1, 2] 4 obj2))"
    by (simp add: obj2_mid_store)
  have k: "(2 :: nat) \<le> 4 \<and> 4 \<le> sizeof_T cfg2 + 2"
    by (simp add: cfg2_def)
  from th have e: "even (seq obj2)"
    by blast
  from th have r: "store_steps cfg2 [1, 2] (sizeof_T cfg2 + 3) obj2 = (ST_return, store cfg2 obj2 [1, 2])"
    by blast
  from th b have o: "odd (seq (snd (store_steps cfg2 [1, 2] 4 obj2)))"
    by blast
  from th have e2: "even (seq (store cfg2 obj2 [1, 2]))"
    by blast
  from th o have f: "try_load cfg2 (snd (store_steps cfg2 [1, 2] 4 obj2)) [5, 5] = ([5, 5], Inr False)
    \<and> try_load_steps cfg2 [snd (store_steps cfg2 [1, 2] 4 obj2), obj2] [5, 5]
        = (TL_return False, [5, 5])"
    by blast
  from reachable_obj2 len2 e r o b k e2 f p q show ?thesis
    by blast
qed

section \<open>The missing return of the copy out\<close>

text \<open>
  Every \<open>try_load\<close> that reads an even counter calls \<open>memcpy_out\<close>, and every call of
  \<open>memcpy_out\<close> flows off the end of a function declared to return \<open>T\<close>. The
  operations that read the value therefore end in undefined behaviour where the
  specification has them return it; the theorems below evaluate them in the instance.
\<close>

text \<open>
  C1: the single-thread round trip. \<open>store({1, 2})\<close> leaves the object holding
  \<open>{1, 2}\<close> under the even counter 4, and the \<open>load()\<close> that follows does not return
  \<open>{1, 2}\<close>: its first \<open>try_load\<close> calls \<open>memcpy_out\<close> and flows off its end.
\<close>

theorem store_load_round_trip_undefined:
  "store cfg2 obj2 [1, 2] = \<lparr>seq = 4, data = [1, 2]\<rparr>
   \<and> load cfg2 (store cfg2 obj2 [1, 2]) [5, 5] = Some (Inl Flows_off_end)"
  by (simp add: obj2_stored load2)

text \<open>
  C2: \<open>try_load\<close> on an even counter. On the freshly constructed object it copies the
  stored bytes \<open>{0, 0}\<close> into the slot and then flows off the end of \<open>memcpy_out\<close>: it
  neither loads the counter a second time nor returns true, run alone or step by
  step.
\<close>

theorem try_load_even_counter_undefined:
  "try_load cfg2 obj2 [5, 5] = ([0, 0], Inl Flows_off_end)
   \<and> try_load_steps cfg2 [obj2, obj2, obj2, obj2] [5, 5] = (TL_undefined Flows_off_end, [0, 0])"
  by (simp add: obj2_eq try_load2 try_load_steps2)


text \<open>
  C6: \<open>load\<close> in a state with no store in progress. On the object constructed with
  \<open>{3, 4}\<close> the single \<open>try_load\<close> attempt copies \<open>{3, 4}\<close> and flows off the end of
  \<open>memcpy_out\<close>, and \<open>load()\<close> ends there without returning the stored value.
\<close>

theorem load_quiescent_undefined:
  "try_load cfg2 (seqlock_object_value cfg2 [7, 9] [3, 4]) [5, 5] = ([3, 4], Inl Flows_off_end)
   \<and> load cfg2 (seqlock_object_value cfg2 [7, 9] [3, 4]) [5, 5] = Some (Inl Flows_off_end)"
  by (simp add: value2 load2 try_load2)

text \<open>
  C7: construction. Both constructors leave the counter at 2 and the storage holding
  the value that \<open>store\<close> received, \<open>{0, 0}\<close> for \<open>T()\<close> and \<open>{1, 2}\<close> for the given value;
  \<open>load()\<close> on either fresh object ends in undefined behaviour instead of returning
  that value.
\<close>

theorem load_after_construction_undefined:
  "seqlock_object_default cfg2 [7, 9] [0, 0] = \<lparr>seq = 2, data = [0, 0]\<rparr>
   \<and> seqlock_object_value cfg2 [7, 9] [1, 2] = \<lparr>seq = 2, data = [1, 2]\<rparr>
   \<and> load cfg2 (seqlock_object_default cfg2 [7, 9] [0, 0]) [5, 5] = Some (Inl Flows_off_end)
   \<and> load cfg2 (seqlock_object_value cfg2 [7, 9] [1, 2]) [5, 5] = Some (Inl Flows_off_end)"
  by (simp add: value2 default2 load2)

text \<open>
  C8: the same value stored twice. Each \<open>store({0, 0})\<close> adds 2 to the counter, 4 in
  total, from 2 to 6; the \<open>load()\<close> that follows ends in undefined behaviour instead of
  returning \<open>{0, 0}\<close>.
\<close>

theorem load_after_store_twice_undefined:
  "seq (store cfg2 obj2 [0, 0]) = 4
   \<and> seq (store cfg2 (store cfg2 obj2 [0, 0]) [0, 0]) = 6
   \<and> load cfg2 (store cfg2 (store cfg2 obj2 [0, 0]) [0, 0]) [5, 5] = Some (Inl Flows_off_end)"
proof -
  have "even (seq (store cfg2 (store cfg2 obj2 [0, 0]) [0, 0]))"
    by (simp add: store_seq obj2_eq)
  then have "load cfg2 (store cfg2 (store cfg2 obj2 [0, 0]) [0, 0]) [5, 5] = Some (Inl Flows_off_end)"
    by (rule load_even)
  then show ?thesis
    by (simp add: store_seq obj2_eq)
qed


end
